theory Spec2Isabelle
  imports Main "HOL-Library.Sublist"
begin

section \<open>Data model of seller.py\<close>

text \<open>
  Python \<open>str\<close> values are modelled as \<^typ>\<open>string\<close>. A character outside ASCII is
  carried as its UTF-8 bytes; the program only compares strings for equality, splits on
  the ASCII period, deletes the characters outside \<open>0-9\<close> and parses decimal literals,
  and none of these can tell a UTF-8 byte sequence from the code point it encodes.
\<close>

text \<open>The exceptions the program can raise: \<open>ValueError\<close> from \<open>int\<close> and
  \<open>range\<close>, the three failures of an HTTP request that \<open>main\<close> tells apart, and any
  other exception.\<close>

datatype error = ValueError | HTTPError | ReadTimeout | ConnectionError | OtherError

text \<open>
  One row of the inventory file, as \<open>download_stock\<close> documents it:
  \<open>{'Kod': '123', 'Kolichestvo': '5', 'Tsena': "5'990.00 rub."}\<close>, the three keys
  being the Cyrillic words for code, quantity and price (transliterated here). The
  values are strings, so \<open>str(watch.get(...))\<close> returns them as they are.
\<close>

record watch =
  Kod :: string
  Kolichestvo :: string
  Tsena :: string

text \<open>The dictionaries built by \<open>create_stocks\<close> and \<open>create_prices\<close>; both have the
  key \<open>offer_id\<close>.\<close>

record offer =
  offer_id :: string

record stock_entry = offer +
  stock :: int

record price_entry = offer +
  auto_action_enabled :: string
  currency_code :: string
  old_price :: string
  price :: string

section \<open>price_conversion\<close>

text \<open>\<open>str.split(sep)\<close> for a one-character separator: the pieces between the
  occurrences of the separator, so always at least one piece.\<close>

fun str_split :: "char \<Rightarrow> string \<Rightarrow> string list" where
  "str_split sep [] = [[]]"
| "str_split sep (c # cs) =
     (if c = sep then [] # str_split sep cs
      else (case str_split sep cs of
              [] \<Rightarrow> [[c]]
            | p # ps \<Rightarrow> (c # p) # ps))"

text \<open>The character class \<open>[0-9]\<close> of the regular expression.\<close>

definition is_digit :: "char \<Rightarrow> bool" where
  "is_digit c = (c \<in> set ''0123456789'')"

text \<open>\<open>re.sub("[^0-9]", "", s)\<close>: every character outside the class is replaced
  by the empty string.\<close>

definition re_sub_non_digits :: "string \<Rightarrow> string" where
  "re_sub_non_digits s = filter is_digit s"

text \<open>\<open>return re.sub("[^0-9]", "", price.split(".")[0])\<close>; the argument \<open>price\<close>
  is written \<open>price_str\<close>, since \<open>price\<close> is also a key of the price dictionary.\<close>

definition price_conversion :: "string \<Rightarrow> string" where
  "price_conversion price_str = re_sub_non_digits (str_split (CHR ''.'') price_str ! 0)"

text \<open>The wording of the specification: the prefix before the first period,
  with every character that is not an ASCII digit removed.\<close>

definition price_conversion_spec :: "string \<Rightarrow> string" where
  "price_conversion_spec p = filter is_digit (takeWhile (\<lambda>c. c \<noteq> CHR ''.'') p)"

text \<open>The two inputs of the docstring's examples: \<open>5'990.00\<close> and \<open>12 345,00\<close>,
  each followed by a space, the currency label (three Cyrillic letters, U+0440 U+0443
  U+0431, six bytes in UTF-8) and a period.\<close>

definition rub_label :: string where
  "rub_label = [CHR 0xD1, CHR 0x80, CHR 0xD1, CHR 0x83, CHR 0xD0, CHR 0xB1]"

definition example_price_apostrophe :: string where
  "example_price_apostrophe = ''5'' @ [CHR 0x27] @ ''990.00 '' @ rub_label @ ''.''"

definition example_price_comma :: string where
  "example_price_comma = ''12 345,00 '' @ rub_label @ ''.''"

section \<open>divide\<close>

text \<open>\<open>range(i, stop, step)\<close> for a positive step, as the list of its values.\<close>

function py_range :: "int \<Rightarrow> int \<Rightarrow> int \<Rightarrow> int list" where
  "py_range i stop step =
     (if 0 < step \<and> i < stop then i # py_range (i + step) stop step else [])"
  by pat_completeness auto
termination
  by (relation "measure (\<lambda>(i, stop, step). nat (stop - i))") auto

declare py_range.simps [simp del]

text \<open>The slice \<open>lst[i : j]\<close> for \<open>0 \<le> i\<close>: out-of-range bounds are clipped.\<close>

definition slice :: "'a list \<Rightarrow> int \<Rightarrow> int \<Rightarrow> 'a list" where
  "slice lst i j = take (nat (j - i)) (drop (nat i) lst)"

text \<open>
  \<open>for i in range(0, len(lst), n): yield lst[i : i + n]\<close>.
  The generator is always consumed by \<open>list(...)\<close>, so it is modelled by the list of
  the chunks it yields. \<open>range\<close> raises ValueError for a zero step and is empty for a
  negative one.
\<close>

definition divide :: "'a list \<Rightarrow> int \<Rightarrow> error + 'a list list" where
  "divide lst n =
     (if n = 0 then Inl ValueError
      else if n < 0 then Inr []
      else Inr (map (\<lambda>i. slice lst i (i + n)) (py_range 0 (int (length lst)) n)))"

section \<open>create_stocks and create_prices\<close>

text \<open>
  \<open>int(s)\<close> on a string of ASCII characters: the whitespace around it is skipped (tab,
  line feed, vertical tab, form feed, carriage return and space, no other character),
  one sign may lead, and the rest is a non-empty run of decimal digits in which
  single underscores may separate digits. Anything else raises ValueError.
\<close>

definition is_space :: "char \<Rightarrow> bool" where
  "is_space c = (c \<in> set [CHR 0x09, CHR 0x0A, CHR 0x0B, CHR 0x0C, CHR 0x0D, CHR 0x20])"

definition str_strip :: "string \<Rightarrow> string" where
  "str_strip s = rev (dropWhile is_space (rev (dropWhile is_space s)))"

definition digit_value :: "char \<Rightarrow> int" where
  "digit_value c = int (of_char c) - 48"

fun int_digits :: "int \<Rightarrow> bool \<Rightarrow> string \<Rightarrow> error + int" where
  "int_digits acc after_digit [] = (if after_digit then Inr acc else Inl ValueError)"
| "int_digits acc after_digit (c # cs) =
     (if is_digit c then int_digits (10 * acc + digit_value c) True cs
      else if c = CHR ''_'' \<and> after_digit then int_digits acc False cs
      else Inl ValueError)"

definition int_ascii :: "string \<Rightarrow> error + int" where
  "int_ascii s =
     (case str_strip s of
        [] \<Rightarrow> Inl ValueError
      | c # cs \<Rightarrow>
          if c = CHR ''-'' then map_sum id uminus (int_digits 0 False cs)
          else if c = CHR ''+'' then int_digits 0 False cs
          else int_digits 0 False (c # cs))"

text \<open>
  On the other strings the value of \<open>int\<close> is not fixed by the program: a character
  beyond ASCII counts as a space or as a digit by the Unicode tables of the
  interpreter, and a string of more than 640 digits is refused or not by the
  interpreter's digit limit (4300 unless configured; it cannot be set below 640). What
  \<open>int\<close> returns there is a parameter of the model, the \<open>interpreter\<close>; every function
  that reaches \<open>int\<close> takes it as its first argument.
\<close>

type_synonym interpreter = "string \<Rightarrow> error + int"

definition py_int :: "interpreter \<Rightarrow> string \<Rightarrow> error + int" where
  "py_int interp s =
     (if list_all (\<lambda>c. (of_char c :: nat) < 128) s \<and> length (filter is_digit s) \<le> 640
      then int_ascii s
      else interp s)"

text \<open>An interpreter for the examples. Their quantities are short ASCII strings, so
  it is never consulted; it is one that refuses every string left to it.\<close>

definition plain_interpreter :: interpreter where
  "plain_interpreter s = Inl ValueError"

text \<open>
  The first loop of \<open>create_stocks\<close>. The state is the caller's list \<open>offer_ids\<close>,
  which \<open>offer_ids.remove(...)\<close> changes in place (the first occurrence is removed),
  and the list \<open>stocks\<close> built so far. When \<open>int\<close> raises, the loop stops and the
  caller's list stays as the iterations before left it.
\<close>

fun stocks_loop ::
  "interpreter \<Rightarrow> watch list \<Rightarrow> string list \<Rightarrow> stock_entry list
   \<Rightarrow> string list \<times> (error + stock_entry list)"
where
  "stocks_loop interp [] offer_ids stocks = (offer_ids, Inr stocks)"
| "stocks_loop interp (w # ws) offer_ids stocks =
     (if Kod w \<in> set offer_ids then
        (case (let count = Kolichestvo w in
               if count = ''>10'' then Inr 100
               else if count = ''1'' then Inr 0
               else py_int interp (Kolichestvo w)) of
           Inl e \<Rightarrow> (offer_ids, Inl e)
         | Inr st \<Rightarrow>
             stocks_loop interp ws (remove1 (Kod w) offer_ids)
               (stocks @ [\<lparr>offer_id = Kod w, stock = st\<rparr>]))
      else stocks_loop interp ws offer_ids stocks)"

text \<open>\<open>create_stocks\<close> returns the final content of the caller's \<open>offer_ids\<close> together
  with its result: the second loop appends a zero record for every identifier left.\<close>

definition create_stocks ::
  "interpreter \<Rightarrow> watch list \<Rightarrow> string list \<Rightarrow> string list \<times> (error + stock_entry list)"
where
  "create_stocks interp watch_remnants offer_ids =
     (case stocks_loop interp watch_remnants offer_ids [] of
        (offer_ids', Inl e) \<Rightarrow> (offer_ids', Inl e)
      | (offer_ids', Inr stocks) \<Rightarrow>
          (offer_ids', Inr (stocks @ map (\<lambda>i. \<lparr>offer_id = i, stock = 0\<rparr>) offer_ids')))"

text \<open>\<open>create_prices\<close> only reads \<open>offer_ids\<close>, and \<open>price_conversion\<close> cannot raise on
  a string: a pure function of the two lists.\<close>

fun create_prices :: "watch list \<Rightarrow> string list \<Rightarrow> price_entry list" where
  "create_prices [] offer_ids = []"
| "create_prices (w # ws) offer_ids =
     (if Kod w \<in> set offer_ids then
        \<lparr>offer_id = Kod w, auto_action_enabled = ''UNKNOWN'', currency_code = ''RUB'',
         old_price = ''0'', price = price_conversion (Tsena w)\<rparr> # create_prices ws offer_ids
      else create_prices ws offer_ids)"

text \<open>The quantity policy in the words of the specification: the sentinel \<open>>10\<close>
  gives 100, the sentinel \<open>1\<close> gives 0, anything else is parsed as an integer.\<close>

definition quantity_policy :: "interpreter \<Rightarrow> string \<Rightarrow> error + int" where
  "quantity_policy interp q =
     (if q = ''>10'' then Inr 100 else if q = ''1'' then Inr 0 else py_int interp q)"

text \<open>
  Step 1 of the specification, read off the inventory alone: the rows that find their
  identifier in the working copy of the offer identifiers, that is the rows whose
  identifier is still in the list once each earlier row has taken out the first
  occurrence of its own identifier (\<open>remove1\<close> leaves a list without the element as it
  is).
\<close>

definition matched_rows :: "watch list \<Rightarrow> string list \<Rightarrow> watch list" where
  "matched_rows ws ids =
     concat (map (\<lambda>j. if Kod (ws ! j) \<in> set (fold remove1 (map Kod (take j ws)) ids)
                       then [ws ! j] else [])
                 [0..<length ws])"

section \<open>get_offer_ids\<close>

text \<open>
  The \<open>result\<close> object of one reply of the product-list endpoint: the products of the
  page (of which only the key \<open>offer_id\<close> is read), the reported total and the cursor
  for the next request.
\<close>

record page =
  items :: "offer list"
  total :: int
  last_id :: string

text \<open>
  \<open>get_product_list(last_id, client_id, seller_token)\<close> asks the marketplace, which is
  outside the program: a server maps the number of list requests it has already
  answered and the cursor of the request to its reply, a page or the exception that
  \<open>raise_for_status\<close> or the connection raises. The credentials are fixed for a run.
\<close>

type_synonym server = "nat \<Rightarrow> string \<Rightarrow> error + page"

text \<open>
  The \<open>while True\<close> loop of \<open>get_offer_ids\<close>; its state is the cursor \<open>last_id\<close>
  (written \<open>lid\<close>, the name being a key of the page as well) and \<open>product_list\<close>,
  together with the number \<open>k\<close> of requests made. The loop has no bound, so it
  is a partial function: \<open>None\<close> is a run that never leaves the loop.
\<close>

partial_function (option) get_offer_ids_loop ::
  "server \<Rightarrow> nat \<Rightarrow> string \<Rightarrow> offer list \<Rightarrow> (error + offer list) option"
where
  "get_offer_ids_loop srv k lid product_list =
     (case srv k lid of
        Inl e \<Rightarrow> Some (Inl e)
      | Inr some_prod \<Rightarrow>
          (let product_list' = product_list @ items some_prod in
           if total some_prod = int (length product_list') then Some (Inr product_list')
           else get_offer_ids_loop srv (Suc k) (page.last_id some_prod) product_list'))"

definition get_offer_ids :: "server \<Rightarrow> (error + string list) option" where
  "get_offer_ids srv =
     map_option (map_sum id (map offer_id)) (get_offer_ids_loop srv 0 [] [])"

text \<open>
  The run of the loop against a server, told from outside: the cursor of the \<open>n\<close>-th
  request, the server's reply to it, the items of the first \<open>n\<close> pages of a sequence of
  pages, and whether after page \<open>n\<close> the number of items collected equals the
  total that page reports.
\<close>

fun cursor :: "server \<Rightarrow> nat \<Rightarrow> string" where
  "cursor srv 0 = []"
| "cursor srv (Suc n) = (case srv n (cursor srv n) of Inr p \<Rightarrow> page.last_id p | Inl e \<Rightarrow> [])"

definition reply :: "server \<Rightarrow> nat \<Rightarrow> error + page" where
  "reply srv n = srv n (cursor srv n)"

definition accumulated :: "(nat \<Rightarrow> page) \<Rightarrow> nat \<Rightarrow> offer list" where
  "accumulated pages n = concat (map (\<lambda>j. items (pages j)) [0..<n])"

definition reaches_total :: "(nat \<Rightarrow> page) \<Rightarrow> nat \<Rightarrow> bool" where
  "reaches_total pages n = (total (pages n) = int (length (accumulated pages (Suc n))))"

section \<open>main and upload_prices\<close>

text \<open>
  The requests \<open>update_stocks\<close> and \<open>update_price\<close> send, each with its batch. The
  import endpoints are outside the program too: given the number of update requests
  already sent and the request, the endpoint answers (\<open>None\<close>) or the request raises.
\<close>

datatype call = Update_stocks "stock_entry list" | Update_price "price_entry list"

type_synonym endpoint = "nat \<Rightarrow> call \<Rightarrow> error option"

text \<open>A \<open>for\<close> loop over the batches: the requests are sent in order, after those
  already \<open>sent\<close>, and the first one that raises ends the loop.\<close>

fun send_all :: "endpoint \<Rightarrow> call list \<Rightarrow> call list \<Rightarrow> call list \<times> error option" where
  "send_all upd sent [] = (sent, None)"
| "send_all upd sent (c # cs) =
     (case upd (length sent) c of
        Some e \<Rightarrow> (sent @ [c], Some e)
      | None \<Rightarrow> send_all upd (sent @ [c]) cs)"

text \<open>What \<open>main\<close> prints: nothing when the \<open>try\<close> block completes, or the message of
  the \<open>except\<close> clause that catches the exception.\<close>

datatype report = Completed | Timeout_message | Connection_message error | Error_2_message error

fun handler :: "error \<Rightarrow> report" where
  "handler ReadTimeout = Timeout_message"
| "handler ConnectionError = Connection_message ConnectionError"
| "handler e = Error_2_message e"

text \<open>
  \<open>main\<close>, from the interpreter, the server, the result of \<open>download_stock()\<close> and
  the import endpoints to the update requests sent and the report. The environment
  variables are taken as
  present. \<open>create_prices\<close> is given the list \<open>offer_ids\<close> as \<open>create_stocks\<close> left it:
  the two calls share the one list object.
\<close>

definition main ::
  "interpreter \<Rightarrow> server \<Rightarrow> error + watch list \<Rightarrow> endpoint \<Rightarrow> (call list \<times> report) option"
where
  "main interp srv download upd =
     (case get_offer_ids srv of
        None \<Rightarrow> None
      | Some (Inl e) \<Rightarrow> Some ([], handler e)
      | Some (Inr offer_ids) \<Rightarrow>
          (case download of
             Inl e \<Rightarrow> Some ([], handler e)
           | Inr watch_remnants \<Rightarrow>
               (case create_stocks interp watch_remnants offer_ids of
                  (offer_ids', Inl e) \<Rightarrow> Some ([], handler e)
                | (offer_ids', Inr stocks) \<Rightarrow>
                    (case divide stocks 100 of
                       Inl e \<Rightarrow> Some ([], handler e)
                     | Inr stock_batches \<Rightarrow>
                         (case send_all upd [] (map Update_stocks stock_batches) of
                            (sent, Some e) \<Rightarrow> Some (sent, handler e)
                          | (sent, None) \<Rightarrow>
                              (case divide (create_prices watch_remnants offer_ids') 900 of
                                 Inl e \<Rightarrow> Some (sent, handler e)
                               | Inr price_batches \<Rightarrow>
                                   (case send_all upd sent (map Update_price price_batches) of
                                      (sent', Some e) \<Rightarrow> Some (sent', handler e)
                                    | (sent', None) \<Rightarrow> Some (sent', Completed))))))))"

text \<open>
  \<open>upload_prices\<close>: it fetches the offer identifiers itself, so \<open>create_prices\<close> reads
  the full list. It has no \<open>await\<close>, so the coroutine runs as a plain function; an
  exception is not caught. The result is the requests sent and the returned prices.
\<close>

definition upload_prices ::
  "watch list \<Rightarrow> server \<Rightarrow> endpoint \<Rightarrow> (call list \<times> (error + price_entry list)) option"
where
  "upload_prices watch_remnants srv upd =
     (case get_offer_ids srv of
        None \<Rightarrow> None
      | Some (Inl e) \<Rightarrow> Some ([], Inl e)
      | Some (Inr offer_ids) \<Rightarrow>
          (let prices = create_prices watch_remnants offer_ids in
           case divide prices 1000 of
             Inl e \<Rightarrow> Some ([], Inl e)
           | Inr price_batches \<Rightarrow>
               (case send_all upd [] (map Update_price price_batches) of
                  (sent, Some e) \<Rightarrow> Some (sent, Inl e)
                | (sent, None) \<Rightarrow> Some (sent, Inr prices))))"

text \<open>
  The end-to-end scenario: an inventory of 1500 rows with the distinct codes \<open>a\<close>,
  \<open>aa\<close>, \<open>aaa\<close>, ..., and a marketplace whose catalog is exactly these codes, listed
  in two pages of 1000 and 500 products.
\<close>

definition scenario_code :: "nat \<Rightarrow> string" where
  "scenario_code i = replicate (Suc i) (CHR ''a'')"

definition scenario_inventory :: "watch list" where
  "scenario_inventory =
     map (\<lambda>i. \<lparr>Kod = scenario_code i, Kolichestvo = ''5'', Tsena = ''100.00''\<rparr>) [0..<1500]"

definition scenario_server :: server where
  "scenario_server k lid =
     Inr (if k = 0
          then \<lparr>items = map (\<lambda>i. \<lparr>offer_id = scenario_code i\<rparr>) [0..<1000],
                total = 1500, last_id = scenario_code 999\<rparr>
          else \<lparr>items = map (\<lambda>i. \<lparr>offer_id = scenario_code i\<rparr>) [1000..<1500],
                total = 1500, last_id = scenario_code 1499\<rparr>)"


section \<open>Properties of price_conversion\<close>

lemma str_split_nonempty: "str_split sep s \<noteq> []"
  by (induction s) (auto split: list.splits)

lemma str_split_first: "str_split sep s ! 0 = takeWhile (\<lambda>c. c \<noteq> sep) s"
proof (induction s)
  case Nil
  show ?case by simp
next
  case (Cons c cs)
  show ?case
  proof (cases "str_split sep cs")
    case Nil
    with str_split_nonempty show ?thesis by blast
  next
    case (Cons p ps)
    with Cons.IH show ?thesis by auto
  qed
qed


text \<open>
  Claim C8. For every input string, \<open>price_conversion\<close> returns the prefix before the
  first period (the whole string when it has none) with every character that is not an
  ASCII digit removed; the result therefore consists of ASCII digits only.
\<close>

theorem price_conversion_prefix_digits:
  "price_conversion p = filter is_digit (takeWhile (\<lambda>c. c \<noteq> CHR ''.'') p)
   \<and> price_conversion p = price_conversion_spec p
   \<and> (\<forall>c \<in> set (price_conversion p). c \<in> set ''0123456789'')"
  by (simp add: price_conversion_def price_conversion_spec_def re_sub_non_digits_def
      str_split_first is_digit_def)

theorem price_conversion_prefix_digits_witness:
  "price_conversion ''1 250.50 r.'' = ''1250''
   \<and> price_conversion_spec ''1 250.50 r.'' = ''1250''"
  using price_conversion_prefix_digits [of "''1 250.50 r.''"]
  by (simp add: price_conversion_spec_def is_digit_def)

text \<open>
  Claim C7. The docstring's two examples. On \<open>5'990.00\<close> followed by the currency label
  the result is \<open>5990\<close>, as documented. On \<open>12 345,00\<close> followed by the currency label
  the input has no period before the final one, so the digits after the comma are kept:
  the result is \<open>1234500\<close>, not the documented \<open>12345\<close>.
\<close>

theorem price_conversion_examples:
  "price_conversion example_price_apostrophe = ''5990''
   \<and> price_conversion example_price_comma = ''1234500''
   \<and> price_conversion example_price_comma \<noteq> ''12345''"
  by (simp add: price_conversion_def re_sub_non_digits_def is_digit_def
      example_price_apostrophe_def example_price_comma_def rub_label_def)

section \<open>Properties of divide\<close>

lemma py_range_stop: "stop \<le> i \<Longrightarrow> py_range i stop step = []"
  by (simp add: py_range.simps)

lemma py_range_step:
  "0 < step \<Longrightarrow> i < stop \<Longrightarrow> py_range i stop step = i # py_range (i + step) stop step"
  by (subst py_range.simps) simp

lemma chunks_unfold:
  assumes "0 < n" "k < length lst"
  shows "map (\<lambda>i. slice lst i (i + n)) (py_range (int k) (int (length lst)) n)
       = take (nat n) (drop k lst)
         # map (\<lambda>i. slice lst i (i + n)) (py_range (int (k + nat n)) (int (length lst)) n)"
proof -
  have "int k + n = int (k + nat n)" using assms by simp
  then show ?thesis using assms by (simp add: py_range_step slice_def)
qed

lemma chunks_done:
  "length lst \<le> k \<Longrightarrow>
   map (\<lambda>i. slice lst i (i + n)) (py_range (int k) (int (length lst)) n) = []"
  by (simp add: py_range_stop)

lemma chunks_concat:
  assumes "0 < n"
  shows "concat (map (\<lambda>i. slice lst i (i + n)) (py_range (int k) (int (length lst)) n))
       = drop k lst"
proof (induction "length lst - k" arbitrary: k rule: less_induct)
  case less
  show ?case
  proof (cases "k < length lst")
    case True
    have "length lst - (k + nat n) < length lst - k" using True assms by simp
    from less[OF this]
    have "concat (map (\<lambda>i. slice lst i (i + n)) (py_range (int k) (int (length lst)) n))
          = take (nat n) (drop k lst) @ drop (k + nat n) lst"
      unfolding chunks_unfold[OF assms True] by simp
    also have "drop (k + nat n) lst = drop (nat n) (drop k lst)"
      by (simp add: add.commute)
    finally show ?thesis by (simp only: append_take_drop_id)
  next
    case False
    then show ?thesis by (simp add: chunks_done)
  qed
qed

lemma chunks_lengths:
  assumes "0 < n"
  shows "(\<forall>c \<in> set (butlast (map (\<lambda>i. slice lst i (i + n))
                                 (py_range (int k) (int (length lst)) n))).
            int (length c) = n)
       \<and> (\<forall>c \<in> set (map (\<lambda>i. slice lst i (i + n)) (py_range (int k) (int (length lst)) n)).
            1 \<le> length c \<and> int (length c) \<le> n)"
proof (induction "length lst - k" arbitrary: k rule: less_induct)
  case less
  show ?case
  proof (cases "k < length lst")
    case True
    have "length lst - (k + nat n) < length lst - k" using True assms by simp
    note IH = less[OF this]
    note unf = chunks_unfold[OF assms True]
    show ?thesis
    proof (cases "k + nat n < length lst")
      case True
      then show ?thesis unfolding unf using IH assms \<open>k < length lst\<close>
        by simp
    next
      case False
      then have "map (\<lambda>i. slice lst i (i + n))
                   (py_range (int (k + nat n)) (int (length lst)) n) = []"
        by (intro chunks_done) simp
      then show ?thesis unfolding unf using assms \<open>k < length lst\<close>
        by (auto simp: min_def)
    qed
  next
    case False
    then show ?thesis by (simp add: chunks_done)
  qed
qed

text \<open>
  Claim C5. For every list and every positive chunk size, \<open>divide\<close> returns chunks
  whose concatenation, in order, is the list itself; every chunk but the last has
  length exactly \<open>n\<close>; and for a non-empty list there is a last chunk, of length
  between 1 and \<open>n\<close>.
\<close>

theorem divide_concat_lengths:
  assumes "0 < n"
  shows "\<exists>cs. divide s n = Inr cs \<and> concat cs = s
            \<and> (\<forall>c \<in> set (butlast cs). int (length c) = n)
            \<and> (s \<noteq> [] \<longrightarrow> cs \<noteq> [] \<and> 1 \<le> length (last cs) \<and> int (length (last cs)) \<le> n)"
proof -
  define cs where "cs = map (\<lambda>i. slice s i (i + n)) (py_range 0 (int (length s)) n)"
  have d: "divide s n = Inr cs"
    using assms by (simp add: divide_def cs_def)
  have c: "concat cs = s"
    using chunks_concat[OF assms, of s 0] by (simp add: cs_def)
  have l: "(\<forall>c \<in> set (butlast cs). int (length c) = n)
         \<and> (\<forall>c \<in> set cs. 1 \<le> length c \<and> int (length c) \<le> n)"
    using chunks_lengths[OF assms, of s 0] by (simp add: cs_def)
  have "cs \<noteq> [] \<and> 1 \<le> length (last cs) \<and> int (length (last cs)) \<le> n" if "s \<noteq> []"
  proof -
    from that c have ne: "cs \<noteq> []" by auto
    then have "last cs \<in> set cs" by simp
    with l ne show ?thesis by blast
  qed
  with d c l show ?thesis by blast
qed

theorem divide_concat_lengths_witness:
  "(0::int) < 2
   \<and> divide [10, 20, 30, 40, 50 :: nat] 2 = Inr [[10, 20], [30, 40], [50]]
   \<and> (\<exists>cs. divide [10, 20, 30, 40, 50 :: nat] 2 = Inr cs \<and> concat cs = [10, 20, 30, 40, 50]
            \<and> length (last cs) = 1)"
proof -
  have e: "divide [10, 20, 30, 40, 50 :: nat] 2 = Inr [[10, 20], [30, 40], [50]]"
    by (simp add: divide_def slice_def py_range.simps)
  from divide_concat_lengths [of 2 "[10, 20, 30, 40, 50 :: nat]"]
  obtain cs where "divide [10, 20, 30, 40, 50 :: nat] 2 = Inr cs"
    and "concat cs = [10, 20, 30, 40, 50]" by auto
  with e show ?thesis by auto
qed

text \<open>
  Claim C6. The docstring says \<open>list(divide([], 2))\<close> is \<open>[[]]\<close>: one empty chunk.
  In the code \<open>range(0, 0, n)\<close> has no value, the loop body never runs and no chunk
  is produced: the result for the empty list is the empty list of chunks.
\<close>

theorem divide_empty_no_chunk:
  "0 < n \<Longrightarrow> divide [] n = Inr []"
  by (simp add: divide_def py_range_stop)

theorem divide_empty_no_chunk_witness:
  "(0::int) < 2 \<and> divide ([] :: nat list) 2 = Inr [] \<and> divide ([] :: nat list) 2 \<noteq> Inr [[]]"
  using divide_empty_no_chunk [of 2, where ?'a = nat] by simp

section \<open>Properties of create_stocks and create_prices\<close>

lemma stocks_loop_Cons:
  "stocks_loop interp (w # ws) ids acc =
     (if Kod w \<in> set ids then
        (case quantity_policy interp (Kolichestvo w) of
           Inl e \<Rightarrow> (ids, Inl e)
         | Inr q \<Rightarrow> stocks_loop interp ws (remove1 (Kod w) ids) (acc @ [\<lparr>offer_id = Kod w, stock = q\<rparr>]))
      else stocks_loop interp ws ids acc)"
  by (simp add: quantity_policy_def Let_def)

declare stocks_loop.simps(2) [simp del]

lemma subseq_remove1_self: "subseq (remove1 x xs) xs"
  by (induction xs) auto

lemma stocks_loop_decomp:
  "stocks_loop interp ws ids acc = (ids', Inr st) \<Longrightarrow>
   \<exists>rows st'. st = acc @ st' \<and> subseq rows ws
     \<and> list_all2 (\<lambda>w r. r = \<lparr>offer_id = Kod w, stock = stock r\<rparr>
                          \<and> quantity_policy interp (Kolichestvo w) = Inr (stock r)) rows st'
     \<and> subseq ids' ids
     \<and> (\<forall>i \<in> set ids. i \<in> set ids' \<or> i \<in> Kod ` set rows)
     \<and> (\<forall>i \<in> set ids. i \<notin> Kod ` set ws \<longrightarrow> i \<in> set ids')"
proof (induction ws arbitrary: ids acc)
  case Nil
  then show ?case by auto
next
  case (Cons w ws)
  show ?case
  proof (cases "Kod w \<in> set ids")
    case False
    with Cons.prems have "stocks_loop interp ws ids acc = (ids', Inr st)"
      by (simp add: stocks_loop_Cons)
    from Cons.IH[OF this] obtain rows st' where
      h: "st = acc @ st'" "subseq rows ws"
         "list_all2 (\<lambda>w r. r = \<lparr>offer_id = Kod w, stock = stock r\<rparr>
                          \<and> quantity_policy interp (Kolichestvo w) = Inr (stock r)) rows st'"
         "subseq ids' ids"
         "\<forall>i \<in> set ids. i \<in> set ids' \<or> i \<in> Kod ` set rows"
         "\<forall>i \<in> set ids. i \<notin> Kod ` set ws \<longrightarrow> i \<in> set ids'"
      by blast
    have "subseq rows (w # ws)" using h(2) by (rule list_emb_Cons)
    moreover have "\<forall>i \<in> set ids. i \<notin> Kod ` set (w # ws) \<longrightarrow> i \<in> set ids'"
      using h(6) by auto
    ultimately show ?thesis using h(1,3,4,5) by blast
  next
    case True
    with Cons.prems obtain q where q: "quantity_policy interp (Kolichestvo w) = Inr q"
      and run: "stocks_loop interp ws (remove1 (Kod w) ids) (acc @ [\<lparr>offer_id = Kod w, stock = q\<rparr>]) = (ids', Inr st)"
      by (auto simp: stocks_loop_Cons split: sum.splits)
    from Cons.IH[OF run] obtain rows st' where
      h: "st = (acc @ [\<lparr>offer_id = Kod w, stock = q\<rparr>]) @ st'" "subseq rows ws"
         "list_all2 (\<lambda>w r. r = \<lparr>offer_id = Kod w, stock = stock r\<rparr>
                          \<and> quantity_policy interp (Kolichestvo w) = Inr (stock r)) rows st'"
         "subseq ids' (remove1 (Kod w) ids)"
         "\<forall>i \<in> set (remove1 (Kod w) ids). i \<in> set ids' \<or> i \<in> Kod ` set rows"
         "\<forall>i \<in> set (remove1 (Kod w) ids). i \<notin> Kod ` set ws \<longrightarrow> i \<in> set ids'"
      by blast
    let ?r = "\<lparr>offer_id = Kod w, stock = q\<rparr>"
    have 1: "st = acc @ (?r # st')" using h(1) by simp
    have 2: "subseq (w # rows) (w # ws)" using h(2) by simp
    have 3: "list_all2 (\<lambda>w r. r = \<lparr>offer_id = Kod w, stock = stock r\<rparr>
                          \<and> quantity_policy interp (Kolichestvo w) = Inr (stock r)) (w # rows) (?r # st')"
      using h(3) q by simp
    have 4: "subseq ids' ids"
      using h(4) subseq_remove1_self by (rule subseq_order.order_trans)
    have mem: "i \<in> set (remove1 (Kod w) ids)" if "i \<in> set ids" "i \<noteq> Kod w" for i
      using that by simp
    have 5: "\<forall>i \<in> set ids. i \<in> set ids' \<or> i \<in> Kod ` set (w # rows)"
    proof
      fix i assume i: "i \<in> set ids"
      show "i \<in> set ids' \<or> i \<in> Kod ` set (w # rows)"
      proof (cases "i = Kod w")
        case True
        then show ?thesis by simp
      next
        case False
        with i h(5) mem show ?thesis by auto
      qed
    qed
    have 6: "\<forall>i \<in> set ids. i \<notin> Kod ` set (w # ws) \<longrightarrow> i \<in> set ids'"
    proof (intro ballI impI)
      fix i assume i: "i \<in> set ids" "i \<notin> Kod ` set (w # ws)"
      then have "i \<in> set (remove1 (Kod w) ids)" "i \<notin> Kod ` set ws" by auto
      with h(6) show "i \<in> set ids'" by blast
    qed
    from 1 2 3 4 5 6 show ?thesis by blast
  qed
qed

lemma stocks_loop_returns:
  "(\<forall>w \<in> set ws. \<exists>q. quantity_policy interp (Kolichestvo w) = Inr q) \<Longrightarrow>
   \<exists>ids' st. stocks_loop interp ws ids acc = (ids', Inr st)"
proof (induction ws arbitrary: ids acc)
  case Nil
  then show ?case by simp
next
  case (Cons w ws)
  then obtain q where q: "quantity_policy interp (Kolichestvo w) = Inr q" by auto
  from Cons.prems have rest: "\<forall>w \<in> set ws. \<exists>q. quantity_policy interp (Kolichestvo w) = Inr q" by simp
  show ?case
    using Cons.IH[OF rest] q by (simp add: stocks_loop_Cons)
qed

lemma stocks_loop_distinct_ids:
  "distinct ids \<Longrightarrow> stocks_loop interp ws ids acc = (ids', Inr st) \<Longrightarrow>
   ids' = filter (\<lambda>i. i \<notin> Kod ` set ws) ids"
proof (induction ws arbitrary: ids acc)
  case Nil
  then show ?case by simp
next
  case (Cons w ws)
  show ?case
  proof (cases "Kod w \<in> set ids")
    case False
    with Cons.prems have "stocks_loop interp ws ids acc = (ids', Inr st)"
      by (simp add: stocks_loop_Cons)
    from Cons.IH[OF Cons.prems(1) this] have "ids' = filter (\<lambda>i. i \<notin> Kod ` set ws) ids" .
    also have "\<dots> = filter (\<lambda>i. i \<notin> Kod ` set (w # ws)) ids"
      using False by (intro filter_cong) auto
    finally show ?thesis .
  next
    case True
    with Cons.prems obtain q where
      run: "stocks_loop interp ws (remove1 (Kod w) ids) (acc @ [\<lparr>offer_id = Kod w, stock = q\<rparr>]) = (ids', Inr st)"
      by (auto simp: stocks_loop_Cons split: sum.splits)
    have d: "distinct (remove1 (Kod w) ids)" using Cons.prems(1) by simp
    have r: "remove1 (Kod w) ids = filter ((\<noteq>) (Kod w)) ids"
      using Cons.prems(1) by (simp add: distinct_remove1_removeAll removeAll_filter_not_eq) 
    from Cons.IH[OF d run] have "ids' = filter (\<lambda>i. i \<notin> Kod ` set ws) (remove1 (Kod w) ids)" .
    also have "\<dots> = filter (\<lambda>i. i \<notin> Kod ` set (w # ws)) ids"
      unfolding r by (auto intro: filter_cong)
    finally show ?thesis .
  qed
qed

lemma stocks_loop_all_matched:
  "distinct (map Kod ws) \<Longrightarrow> Kod ` set ws \<subseteq> set ids \<Longrightarrow>
   stocks_loop interp ws ids acc = (ids', Inr st) \<Longrightarrow> length st = length acc + length ws"
proof (induction ws arbitrary: ids acc)
  case Nil
  then show ?case by simp
next
  case (Cons w ws)
  from Cons.prems have "Kod w \<in> set ids" by simp
  with Cons.prems obtain q where
    run: "stocks_loop interp ws (remove1 (Kod w) ids) (acc @ [\<lparr>offer_id = Kod w, stock = q\<rparr>]) = (ids', Inr st)"
    by (auto simp: stocks_loop_Cons split: sum.splits)
  have d: "distinct (map Kod ws)" using Cons.prems(1) by simp
  have s: "Kod ` set ws \<subseteq> set (remove1 (Kod w) ids)"
  proof
    fix i assume i: "i \<in> Kod ` set ws"
    from Cons.prems(1) have "Kod w \<notin> Kod ` set ws" by simp
    with i have "i \<noteq> Kod w" by blast
    moreover from i Cons.prems(2) have "i \<in> set ids" by auto
    ultimately show "i \<in> set (remove1 (Kod w) ids)" by simp
  qed
  from Cons.IH[OF d s run] show ?case by simp
qed

lemma create_prices_filter:
  "create_prices ws ids =
   map (\<lambda>w. \<lparr>offer_id = Kod w, auto_action_enabled = ''UNKNOWN'', currency_code = ''RUB'',
         old_price = ''0'', price = price_conversion (Tsena w)\<rparr>) (filter (\<lambda>w. Kod w \<in> set ids) ws)"
  by (induction ws) auto

lemma create_stocks_decomp:
  assumes "create_stocks interp ws ids = (ids', Inr st)"
  shows "\<exists>rows derived. st = derived @ map (\<lambda>i. \<lparr>offer_id = i, stock = 0\<rparr>) ids'
     \<and> subseq rows ws
     \<and> list_all2 (\<lambda>w r. r = \<lparr>offer_id = Kod w, stock = stock r\<rparr>
                          \<and> quantity_policy interp (Kolichestvo w) = Inr (stock r)) rows derived
     \<and> subseq ids' ids
     \<and> (\<forall>i \<in> set ids. i \<in> set ids' \<or> i \<in> Kod ` set rows)
     \<and> (\<forall>i \<in> set ids. i \<notin> Kod ` set ws \<longrightarrow> i \<in> set ids')"
proof -
  from assms obtain st0 where l: "stocks_loop interp ws ids [] = (ids', Inr st0)"
    and st: "st = st0 @ map (\<lambda>i. \<lparr>offer_id = i, stock = 0\<rparr>) ids'"
    by (auto simp: create_stocks_def split: prod.splits sum.splits)
  from stocks_loop_decomp[OF l] st show ?thesis by auto
qed


lemma create_stocks_returns:
  assumes "\<forall>w \<in> set ws. \<exists>q. quantity_policy interp (Kolichestvo w) = Inr q"
  shows "\<exists>ids' st. create_stocks interp ws ids = (ids', Inr st)"
proof -
  from stocks_loop_returns[OF assms, of ids "[]"] obtain ids' st0
    where "stocks_loop interp ws ids [] = (ids', Inr st0)" by blast
  then show ?thesis by (simp add: create_stocks_def)
qed

lemmas eval_stocks = create_stocks_def stocks_loop.simps py_int_def int_ascii_def str_strip_def
  is_space_def
  is_digit_def digit_value_def


lemma matched_rows_Nil [simp]: "matched_rows [] ids = []"
  by (simp add: matched_rows_def)

lemma matched_rows_Cons:
  "matched_rows (w # ws) ids
   = (if Kod w \<in> set ids then [w] else []) @ matched_rows ws (remove1 (Kod w) ids)"
proof -
  have u: "[0..<length (w # ws)] = 0 # map Suc [0..<length ws]"
    by (simp add: upt_conv_Cons map_Suc_upt del: upt_Suc)
  show ?thesis unfolding matched_rows_def u by (simp add: comp_def cong: if_cong)
qed

lemma fold_remove1_subseq: "subseq (fold remove1 ks ids) ids"
proof (induction ks arbitrary: ids)
  case Nil
  show ?case by simp
next
  case (Cons k ks)
  have "subseq (fold remove1 ks (remove1 k ids)) (remove1 k ids)" by (rule Cons.IH)
  then have "subseq (fold remove1 ks (remove1 k ids)) ids"
    using subseq_remove1_self by (rule subseq_order.order_trans)
  then show ?case by simp
qed

lemma fold_remove1_keeps:
  "x \<notin> set ks \<Longrightarrow> x \<in> set (fold remove1 ks ids) \<longleftrightarrow> x \<in> set ids"
  by (induction ks arbitrary: ids) auto

lemma fold_remove1_distinct:
  "distinct ids \<Longrightarrow> fold remove1 ks ids = filter (\<lambda>i. i \<notin> set ks) ids"
proof (induction ks arbitrary: ids)
  case Nil
  show ?case by simp
next
  case (Cons k ks)
  have r: "remove1 k ids = filter ((\<noteq>) k) ids"
    using Cons.prems by (simp add: distinct_remove1_removeAll removeAll_filter_not_eq)
  have "fold remove1 (k # ks) ids = fold remove1 ks (remove1 k ids)" by simp
  also have "\<dots> = filter (\<lambda>i. i \<notin> set ks) (remove1 k ids)"
    using Cons.prems by (intro Cons.IH) simp
  also have "\<dots> = filter (\<lambda>i. i \<notin> set (k # ks)) ids"
    unfolding r by (auto intro: filter_cong)
  finally show ?case .
qed

lemma fold_remove1_matched:
  "fold remove1 (map Kod (matched_rows ws ids)) ids = fold remove1 (map Kod ws) ids"
proof (induction ws arbitrary: ids)
  case Nil
  show ?case by simp
next
  case (Cons w ws)
  show ?case
  proof (cases "Kod w \<in> set ids")
    case True
    then show ?thesis by (simp add: matched_rows_Cons Cons.IH)
  next
    case False
    then have "remove1 (Kod w) ids = ids" by (rule remove1_idem)
    with False show ?thesis using Cons.IH[of ids] by (simp add: matched_rows_Cons)
  qed
qed

lemma matched_rows_subseq: "subseq (matched_rows ws ids) ws"
proof (induction ws arbitrary: ids)
  case Nil
  show ?case by simp
next
  case (Cons w ws)
  show ?case
  proof (cases "Kod w \<in> set ids")
    case True
    then show ?thesis using Cons.IH[of "remove1 (Kod w) ids"] by (simp add: matched_rows_Cons)
  next
    case False
    have "subseq (matched_rows ws (remove1 (Kod w) ids)) (w # ws)"
      using Cons.IH[of "remove1 (Kod w) ids"] by (rule list_emb_Cons)
    with False show ?thesis by (simp add: matched_rows_Cons)
  qed
qed

lemma matched_rows_in_ids: "v \<in> set (matched_rows ws ids) \<Longrightarrow> Kod v \<in> set ids"
proof (induction ws arbitrary: ids)
  case Nil
  then show ?case by simp
next
  case (Cons w ws)
  from Cons.prems
  have "(Kod w \<in> set ids \<and> v = w) \<or> v \<in> set (matched_rows ws (remove1 (Kod w) ids))"
    by (auto simp: matched_rows_Cons split: if_splits)
  then show ?case
  proof
    assume "Kod w \<in> set ids \<and> v = w"
    then show ?thesis by simp
  next
    assume "v \<in> set (matched_rows ws (remove1 (Kod w) ids))"
    then have "Kod v \<in> set (remove1 (Kod w) ids)" by (rule Cons.IH)
    then show ?thesis using set_remove1_subset by fastforce
  qed
qed

lemma matched_rows_cover:
  "v \<in> set ws \<Longrightarrow> Kod v \<in> set ids \<Longrightarrow> Kod v \<in> Kod ` set (matched_rows ws ids)"
proof (induction ws arbitrary: ids)
  case Nil
  then show ?case by simp
next
  case (Cons w ws)
  show ?case
  proof (cases "Kod v = Kod w")
    case True
    with Cons.prems(2) show ?thesis by (simp add: matched_rows_Cons)
  next
    case False
    with Cons.prems have "v \<in> set ws" "Kod v \<in> set (remove1 (Kod w) ids)" by auto
    then have "Kod v \<in> Kod ` set (matched_rows ws (remove1 (Kod w) ids))" by (rule Cons.IH)
    then show ?thesis by (auto simp: matched_rows_Cons)
  qed
qed

lemma matched_rows_distinct:
  "distinct (map Kod ws) \<Longrightarrow> matched_rows ws ids = filter (\<lambda>w. Kod w \<in> set ids) ws"
proof (induction ws arbitrary: ids)
  case Nil
  show ?case by simp
next
  case (Cons w ws)
  from Cons.prems have d: "distinct (map Kod ws)" and n: "Kod w \<notin> Kod ` set ws" by simp_all
  have "matched_rows ws (remove1 (Kod w) ids)
        = filter (\<lambda>v. Kod v \<in> set (remove1 (Kod w) ids)) ws"
    by (rule Cons.IH[OF d])
  also have "\<dots> = filter (\<lambda>v. Kod v \<in> set ids) ws"
  proof (rule filter_cong[OF refl])
    fix v assume "v \<in> set ws"
    then have "Kod v \<in> Kod ` set ws" by (rule imageI)
    with n have "Kod v \<noteq> Kod w" by metis
    then show "(Kod v \<in> set (remove1 (Kod w) ids)) = (Kod v \<in> set ids)" by simp
  qed
  finally show ?case by (simp add: matched_rows_Cons)
qed

lemma stocks_loop_exact:
  "stocks_loop interp ws ids acc = (ids', Inr st) \<Longrightarrow>
   ids' = fold remove1 (map Kod ws) ids
   \<and> (\<exists>derived. st = acc @ derived
         \<and> list_all2 (\<lambda>w r. r = \<lparr>offer_id = Kod w, stock = stock r\<rparr>
                          \<and> quantity_policy interp (Kolichestvo w) = Inr (stock r))
              (matched_rows ws ids) derived)"
proof (induction ws arbitrary: ids acc)
  case Nil
  then show ?case by simp
next
  case (Cons w ws)
  show ?case
  proof (cases "Kod w \<in> set ids")
    case False
    then have r: "remove1 (Kod w) ids = ids" by (rule remove1_idem)
    from False Cons.prems have "stocks_loop interp ws ids acc = (ids', Inr st)"
      by (simp add: stocks_loop_Cons)
    from Cons.IH[OF this] False r show ?thesis by (simp add: matched_rows_Cons)
  next
    case True
    with Cons.prems obtain q where q: "quantity_policy interp (Kolichestvo w) = Inr q"
      and run: "stocks_loop interp ws (remove1 (Kod w) ids)
                  (acc @ [\<lparr>offer_id = Kod w, stock = q\<rparr>]) = (ids', Inr st)"
      by (auto simp: stocks_loop_Cons split: sum.splits)
    from Cons.IH[OF run] obtain derived where
      i: "ids' = fold remove1 (map Kod ws) (remove1 (Kod w) ids)"
      and s: "st = (acc @ [\<lparr>offer_id = Kod w, stock = q\<rparr>]) @ derived"
      and l: "list_all2 (\<lambda>w r. r = \<lparr>offer_id = Kod w, stock = stock r\<rparr>
                          \<and> quantity_policy interp (Kolichestvo w) = Inr (stock r))
              (matched_rows ws (remove1 (Kod w) ids)) derived"
      by blast
    have "st = acc @ (\<lparr>offer_id = Kod w, stock = q\<rparr> # derived)" using s by simp
    moreover have "list_all2 (\<lambda>w r. r = \<lparr>offer_id = Kod w, stock = stock r\<rparr>
                          \<and> quantity_policy interp (Kolichestvo w) = Inr (stock r))
              (matched_rows (w # ws) ids) (\<lparr>offer_id = Kod w, stock = q\<rparr> # derived)"
      using True l q by (simp add: matched_rows_Cons)
    ultimately show ?thesis using i by auto
  qed
qed

lemma stocks_loop_returns_matched:
  "(\<forall>w \<in> set (matched_rows ws ids). \<exists>q. quantity_policy interp (Kolichestvo w) = Inr q) \<Longrightarrow>
   \<exists>ids' st. stocks_loop interp ws ids acc = (ids', Inr st)"
proof (induction ws arbitrary: ids acc)
  case Nil
  show ?case by simp
next
  case (Cons w ws)
  show ?case
  proof (cases "Kod w \<in> set ids")
    case False
    then have r: "remove1 (Kod w) ids = ids" by (rule remove1_idem)
    from Cons.prems False r
    have "\<forall>w \<in> set (matched_rows ws ids). \<exists>q. quantity_policy interp (Kolichestvo w) = Inr q"
      by (simp add: matched_rows_Cons)
    from Cons.IH[OF this] False show ?thesis by (simp add: stocks_loop_Cons)
  next
    case True
    with Cons.prems obtain q where q: "quantity_policy interp (Kolichestvo w) = Inr q"
      by (auto simp: matched_rows_Cons)
    from Cons.prems True
    have "\<forall>v \<in> set (matched_rows ws (remove1 (Kod w) ids)).
            \<exists>q. quantity_policy interp (Kolichestvo v) = Inr q"
      by (simp add: matched_rows_Cons)
    from Cons.IH[OF this] True q show ?thesis by (simp add: stocks_loop_Cons)
  qed
qed

lemma list_all2_left_all:
  "list_all2 (\<lambda>x y. P x y \<and> Q x y) xs ys \<Longrightarrow> \<forall>x \<in> set xs. \<exists>y. Q x y"
  by (induction rule: list_all2_induct) auto

lemma create_stocks_exact:
  assumes "create_stocks interp ws ids = (ids', Inr st)"
  shows "ids' = fold remove1 (map Kod ws) ids
     \<and> (\<exists>derived. st = derived @ map (\<lambda>i. \<lparr>offer_id = i, stock = 0\<rparr>) ids'
           \<and> list_all2 (\<lambda>w r. r = \<lparr>offer_id = Kod w, stock = stock r\<rparr>
                          \<and> quantity_policy interp (Kolichestvo w) = Inr (stock r))
                (matched_rows ws ids) derived)"
proof -
  from assms obtain st0 where l: "stocks_loop interp ws ids [] = (ids', Inr st0)"
    and st: "st = st0 @ map (\<lambda>i. \<lparr>offer_id = i, stock = 0\<rparr>) ids'"
    by (auto simp: create_stocks_def split: prod.splits sum.splits)
  from stocks_loop_exact[OF l] st show ?thesis by auto
qed

lemma create_stocks_returns_iff:
  "(\<exists>left stocks. create_stocks interp ws ids = (left, Inr stocks))
   \<longleftrightarrow> (\<forall>w \<in> set (matched_rows ws ids). \<exists>q. quantity_policy interp (Kolichestvo w) = Inr q)"
proof
  assume "\<exists>left stocks. create_stocks interp ws ids = (left, Inr stocks)"
  then obtain left stocks where c: "create_stocks interp ws ids = (left, Inr stocks)" by blast
  from create_stocks_exact[OF c] obtain derived where
    "list_all2 (\<lambda>w r. r = \<lparr>offer_id = Kod w, stock = stock r\<rparr>
                          \<and> quantity_policy interp (Kolichestvo w) = Inr (stock r))
                (matched_rows ws ids) derived" by blast
  then have "\<forall>w \<in> set (matched_rows ws ids).
               \<exists>r::stock_entry. quantity_policy interp (Kolichestvo w) = Inr (stock r)"
    by (rule list_all2_left_all)
  then show "\<forall>w \<in> set (matched_rows ws ids). \<exists>q. quantity_policy interp (Kolichestvo w) = Inr q"
    by blast
next
  assume "\<forall>w \<in> set (matched_rows ws ids). \<exists>q. quantity_policy interp (Kolichestvo w) = Inr q"
  from stocks_loop_returns_matched[OF this, of "[]"] obtain ids' st0
    where "stocks_loop interp ws ids [] = (ids', Inr st0)" by blast
  then show "\<exists>left stocks. create_stocks interp ws ids = (left, Inr stocks)"
    by (simp add: create_stocks_def)
qed

lemma derived_offer_ids:
  "list_all2 (\<lambda>w r. r = \<lparr>offer_id = Kod w, stock = stock r\<rparr> \<and> Q w r) rows derived \<Longrightarrow>
   map offer_id derived = map Kod rows"
proof (induction rule: list_all2_induct)
  case Nil
  show ?case by simp
next
  case (Cons w ws r rs)
  from Cons.hyps(1) have "offer_id r = Kod w"
    by (metis offer.select_convs(1))
  with Cons.IH show ?case by simp
qed

lemma remove1_count:
  "count_list (remove1 x xs) i = (if i = x then count_list xs i - 1 else count_list xs i)"
  by (induction xs) auto

lemma fold_remove1_count:
  "count_list (fold remove1 ks ids) i = count_list ids i - count_list ks i"
  by (induction ks arbitrary: ids) (auto simp: remove1_count)

text \<open>
  Claim C3. \<open>create_stocks\<close> returns a list exactly when the quantity of every matched
  row resolves (otherwise \<open>int\<close> raises). The list it returns is the records of the
  matched rows, in the order of the inventory, followed by one zero record for each
  identifier left in \<open>offer_ids\<close>, in the order of \<open>offer_ids\<close>; what is left is the list
  with, for each inventory row in turn, the first occurrence of its identifier taken
  out. So every offer identifier that no inventory row carries gets a zero record,
  every offer identifier is the \<open>offer_id\<close> of some record, and every row with an
  offer identifier has that identifier among the matched rows. When no identifier is
  listed twice, the zero records are exactly those of the identifiers without a row,
  and when no two rows share an identifier, the matched rows are exactly the rows
  with an offer identifier.
\<close>

theorem create_stocks_zero_fill_order:
  "((\<exists>left stocks. create_stocks interp ws ids = (left, Inr stocks))
      \<longleftrightarrow> (\<forall>w \<in> set (matched_rows ws ids). \<exists>q. quantity_policy interp (Kolichestvo w) = Inr q))
   \<and> (create_stocks interp ws ids = (ids', Inr st) \<longrightarrow>
        (\<forall>i \<in> set ids. i \<notin> Kod ` set ws \<longrightarrow> \<lparr>offer_id = i, stock = 0\<rparr> \<in> set st)
      \<and> (\<forall>i \<in> set ids. i \<in> offer_id ` set st)
      \<and> ids' = fold remove1 (map Kod ws) ids
      \<and> (\<exists>derived. map offer_id derived = map Kod (matched_rows ws ids)
              \<and> st = derived @ map (\<lambda>i. \<lparr>offer_id = i, stock = 0\<rparr>) ids'))
   \<and> subseq (matched_rows ws ids) ws
   \<and> subseq (fold remove1 (map Kod ws) ids) ids
   \<and> (\<forall>w \<in> set ws. Kod w \<in> set ids \<longrightarrow> Kod w \<in> Kod ` set (matched_rows ws ids))
   \<and> (\<forall>w \<in> set (matched_rows ws ids). Kod w \<in> set ids)
   \<and> (distinct ids \<longrightarrow>
        fold remove1 (map Kod ws) ids = filter (\<lambda>i. i \<notin> Kod ` set ws) ids)
   \<and> (distinct (map Kod ws) \<longrightarrow> matched_rows ws ids = filter (\<lambda>w. Kod w \<in> set ids) ws)"
proof -
  have body: "(\<forall>i \<in> set ids. i \<notin> Kod ` set ws \<longrightarrow> \<lparr>offer_id = i, stock = 0\<rparr> \<in> set st)
      \<and> (\<forall>i \<in> set ids. i \<in> offer_id ` set st)
      \<and> ids' = fold remove1 (map Kod ws) ids
      \<and> (\<exists>derived. map offer_id derived = map Kod (matched_rows ws ids)
              \<and> st = derived @ map (\<lambda>i. \<lparr>offer_id = i, stock = 0\<rparr>) ids')"
    if c: "create_stocks interp ws ids = (ids', Inr st)"
  proof -
    from create_stocks_exact[OF c] obtain derived where
      i: "ids' = fold remove1 (map Kod ws) ids"
      and s: "st = derived @ map (\<lambda>i. \<lparr>offer_id = i, stock = 0\<rparr>) ids'"
      and l: "list_all2 (\<lambda>w r. r = \<lparr>offer_id = Kod w, stock = stock r\<rparr>
                          \<and> quantity_policy interp (Kolichestvo w) = Inr (stock r))
                (matched_rows ws ids) derived"
      by blast
    have m: "map offer_id derived = map Kod (matched_rows ws ids)"
      using l by (rule derived_offer_ids)
    have a: "\<forall>i \<in> set ids. i \<notin> Kod ` set ws \<longrightarrow> \<lparr>offer_id = i, stock = 0\<rparr> \<in> set st"
    proof (intro ballI impI)
      fix x assume "x \<in> set ids" "x \<notin> Kod ` set ws"
      then have "x \<in> set ids'" unfolding i by (simp add: fold_remove1_keeps)
      then show "\<lparr>offer_id = x, stock = 0\<rparr> \<in> set st" unfolding s by simp
    qed
    have o: "set (map offer_id st) = Kod ` set (matched_rows ws ids) \<union> set ids'"
      unfolding s using m by (simp add: comp_def)
    have b: "\<forall>i \<in> set ids. i \<in> offer_id ` set st"
    proof
      fix x assume x: "x \<in> set ids"
      show "x \<in> offer_id ` set st"
      proof (cases "x \<in> Kod ` set ws")
        case True
        then obtain v where "v \<in> set ws" "Kod v = x" by auto
        with x have "x \<in> Kod ` set (matched_rows ws ids)" using matched_rows_cover by blast
        with o show ?thesis by auto
      next
        case False
        with x a have "\<lparr>offer_id = x, stock = 0\<rparr> \<in> set st" by blast
        then have "offer_id \<lparr>offer_id = x, stock = 0\<rparr> \<in> offer_id ` set st" by (rule imageI)
        then show ?thesis by simp
      qed
    qed
    from a b i m s show ?thesis by blast
  qed
  have d: "distinct ids \<longrightarrow>
        fold remove1 (map Kod ws) ids = filter (\<lambda>i. i \<notin> Kod ` set ws) ids"
  proof
    assume "distinct ids"
    from fold_remove1_distinct[OF this, of "map Kod ws"] show
      "fold remove1 (map Kod ws) ids = filter (\<lambda>i. i \<notin> Kod ` set ws) ids" by simp
  qed
  have b': "create_stocks interp ws ids = (ids', Inr st) \<longrightarrow>
        (\<forall>i \<in> set ids. i \<notin> Kod ` set ws \<longrightarrow> \<lparr>offer_id = i, stock = 0\<rparr> \<in> set st)
      \<and> (\<forall>i \<in> set ids. i \<in> offer_id ` set st)
      \<and> ids' = fold remove1 (map Kod ws) ids
      \<and> (\<exists>derived. map offer_id derived = map Kod (matched_rows ws ids)
              \<and> st = derived @ map (\<lambda>i. \<lparr>offer_id = i, stock = 0\<rparr>) ids')"
    by (rule impI) (rule body)
  have cov: "\<forall>w \<in> set ws. Kod w \<in> set ids \<longrightarrow> Kod w \<in> Kod ` set (matched_rows ws ids)"
    using matched_rows_cover by blast
  have inn: "\<forall>w \<in> set (matched_rows ws ids). Kod w \<in> set ids"
    using matched_rows_in_ids by blast
  have md: "distinct (map Kod ws) \<longrightarrow> matched_rows ws ids = filter (\<lambda>w. Kod w \<in> set ids) ws"
    using matched_rows_distinct by blast
  show ?thesis
    using create_stocks_returns_iff[of interp ws ids] b' matched_rows_subseq[of ws ids]
      fold_remove1_subseq[of "map Kod ws" ids] cov inn d md
    by (intro conjI) assumption+
qed

theorem create_stocks_zero_fill_order_witness:
  "create_stocks plain_interpreter
     [\<lparr>Kod = ''B'', Kolichestvo = ''5'', Tsena = ''100''\<rparr>,
      \<lparr>Kod = ''X'', Kolichestvo = ''2'', Tsena = ''7''\<rparr>,
      \<lparr>Kod = ''C'', Kolichestvo = ''>10'', Tsena = ''9''\<rparr>] [''A'', ''B'', ''C'', ''D'']
     = ([''A'', ''D''], Inr [\<lparr>offer_id = ''B'', stock = 5\<rparr>, \<lparr>offer_id = ''C'', stock = 100\<rparr>,
                            \<lparr>offer_id = ''A'', stock = 0\<rparr>, \<lparr>offer_id = ''D'', stock = 0\<rparr>])
   \<and> fold remove1 [''B'', ''X'', ''C''] [''A'', ''B'', ''C'', ''D''] = [''A'', ''D'']
   \<and> \<lparr>offer_id = ''A'', stock = 0\<rparr> \<in> set [\<lparr>offer_id = ''B'', stock = 5\<rparr>,
         \<lparr>offer_id = ''C'', stock = 100\<rparr>, \<lparr>offer_id = ''A'', stock = 0\<rparr>,
         \<lparr>offer_id = ''D'', stock = 0\<rparr>]"
proof -
  have e: "create_stocks plain_interpreter
     [\<lparr>Kod = ''B'', Kolichestvo = ''5'', Tsena = ''100''\<rparr>,
      \<lparr>Kod = ''X'', Kolichestvo = ''2'', Tsena = ''7''\<rparr>,
      \<lparr>Kod = ''C'', Kolichestvo = ''>10'', Tsena = ''9''\<rparr>] [''A'', ''B'', ''C'', ''D'']
     = ([''A'', ''D''], Inr [\<lparr>offer_id = ''B'', stock = 5\<rparr>, \<lparr>offer_id = ''C'', stock = 100\<rparr>,
                            \<lparr>offer_id = ''A'', stock = 0\<rparr>, \<lparr>offer_id = ''D'', stock = 0\<rparr>])"
    by (simp add: eval_stocks)
  from create_stocks_zero_fill_order
    [of plain_interpreter
        "[\<lparr>Kod = ''B'', Kolichestvo = ''5'', Tsena = ''100''\<rparr>,
          \<lparr>Kod = ''X'', Kolichestvo = ''2'', Tsena = ''7''\<rparr>,
          \<lparr>Kod = ''C'', Kolichestvo = ''>10'', Tsena = ''9''\<rparr>]" "[''A'', ''B'', ''C'', ''D'']"
        "[''A'', ''D'']"
        "[\<lparr>offer_id = ''B'', stock = 5\<rparr>, \<lparr>offer_id = ''C'', stock = 100\<rparr>,
          \<lparr>offer_id = ''A'', stock = 0\<rparr>, \<lparr>offer_id = ''D'', stock = 0\<rparr>]"] e
  show ?thesis by simp
qed



text \<open>
  Claim C9, as stated, fails when two inventory rows carry the same identifier: both
  rows give a price record, so the identifier gets two.
\<close>

theorem create_prices_duplicate_rows:
  "create_prices [\<lparr>Kod = ''A'', Kolichestvo = ''5'', Tsena = ''100.00''\<rparr>,
                  \<lparr>Kod = ''A'', Kolichestvo = ''7'', Tsena = ''200.00''\<rparr>] [''A'']
   = [\<lparr>offer_id = ''A'', auto_action_enabled = ''UNKNOWN'', currency_code = ''RUB'',
       old_price = ''0'', price = ''100''\<rparr>,
      \<lparr>offer_id = ''A'', auto_action_enabled = ''UNKNOWN'', currency_code = ''RUB'',
       old_price = ''0'', price = ''200''\<rparr>]"
  by (simp add: price_conversion_def re_sub_non_digits_def is_digit_def)


text \<open>
  Claim C9, amended. \<open>create_prices\<close> emits one price record for every inventory row
  whose identifier is among the offer identifiers, in inventory order, and none else:
  every record has an identifier of the inventory and of the offer identifiers,
  \<open>currency_code\<close> RUB and \<open>old_price\<close> 0, and an identifier gets as many records as
  the inventory has rows with it when it is an offer identifier (exactly one when it
  is on exactly one row), and none when it is not.
\<close>

theorem create_prices_one_per_row:
  "map offer_id (create_prices ws ids) = filter (\<lambda>i. i \<in> set ids) (map Kod ws)
   \<and> (\<forall>p \<in> set (create_prices ws ids).
         currency_code p = ''RUB'' \<and> old_price p = ''0''
         \<and> offer_id p \<in> Kod ` set ws \<and> offer_id p \<in> set ids)
   \<and> length (filter (\<lambda>p. offer_id p = i) (create_prices ws ids))
       = (if i \<in> set ids then length (filter (\<lambda>w. Kod w = i) ws) else 0)"
proof (intro conjI)
  show "map offer_id (create_prices ws ids) = filter (\<lambda>i. i \<in> set ids) (map Kod ws)"
    by (induction ws) auto
  show "\<forall>p \<in> set (create_prices ws ids).
         currency_code p = ''RUB'' \<and> old_price p = ''0''
         \<and> offer_id p \<in> Kod ` set ws \<and> offer_id p \<in> set ids"
    by (induction ws) auto
  show "length (filter (\<lambda>p. offer_id p = i) (create_prices ws ids))
       = (if i \<in> set ids then length (filter (\<lambda>w. Kod w = i) ws) else 0)"
    by (induction ws) auto
qed

theorem create_prices_one_per_row_witness:
  "map offer_id (create_prices [\<lparr>Kod = ''A'', Kolichestvo = ''5'', Tsena = ''100.00''\<rparr>,
                                \<lparr>Kod = ''Z'', Kolichestvo = ''1'', Tsena = ''9''\<rparr>,
                                \<lparr>Kod = ''B'', Kolichestvo = ''7'', Tsena = ''200.00''\<rparr>]
                               [''B'', ''A'', ''C'']) = [''A'', ''B'']"
  using create_prices_one_per_row
    [of "[\<lparr>Kod = ''A'', Kolichestvo = ''5'', Tsena = ''100.00''\<rparr>,
         \<lparr>Kod = ''Z'', Kolichestvo = ''1'', Tsena = ''9''\<rparr>,
         \<lparr>Kod = ''B'', Kolichestvo = ''7'', Tsena = ''200.00''\<rparr>]" "[''B'', ''A'', ''C'']" "''A''"]
  by simp

section \<open>Properties of get_offer_ids\<close>

lemma accumulated_Suc: "accumulated pages (Suc n) = accumulated pages n @ items (pages n)"
  by (simp add: accumulated_def)

lemma loop_go:
  assumes "reply srv k = Inr p" "total p \<noteq> int (length (pl @ items p))"
  shows "get_offer_ids_loop srv k (cursor srv k) pl
       = get_offer_ids_loop srv (Suc k) (cursor srv (Suc k)) (pl @ items p)"
  using assms by (subst get_offer_ids_loop.simps) (simp add: reply_def Let_def)

lemma loop_stop:
  assumes "reply srv k = Inr p" "total p = int (length (pl @ items p))"
  shows "get_offer_ids_loop srv k (cursor srv k) pl = Some (Inr (pl @ items p))"
  using assms by (subst get_offer_ids_loop.simps) (simp add: reply_def Let_def)

lemma loop_run_to:
  assumes r: "\<forall>n. reply srv n = Inr (pages n)"
  shows "(\<forall>j<n. \<not> reaches_total pages j) \<Longrightarrow>
         get_offer_ids_loop srv 0 [] [] = get_offer_ids_loop srv n (cursor srv n) (accumulated pages n)"
proof (induction n)
  case 0
  show ?case by (simp add: accumulated_def)
next
  case (Suc n)
  then have "get_offer_ids_loop srv 0 [] []
      = get_offer_ids_loop srv n (cursor srv n) (accumulated pages n)" by simp
  also have "\<dots> = get_offer_ids_loop srv (Suc n) (cursor srv (Suc n))
                     (accumulated pages n @ items (pages n))"
  proof (rule loop_go)
    show "reply srv n = Inr (pages n)" using r by simp
    from Suc.prems have "\<not> reaches_total pages n" by simp
    then show "total (pages n) \<noteq> int (length (accumulated pages n @ items (pages n)))"
      by (simp add: reaches_total_def accumulated_Suc)
  qed
  finally show ?case by (simp add: accumulated_Suc)
qed

lemma loop_returns_at:
  assumes r: "\<forall>n. reply srv n = Inr (pages n)"
    and n: "reaches_total pages n" and before: "\<forall>j<n. \<not> reaches_total pages j"
  shows "get_offer_ids_loop srv 0 [] [] = Some (Inr (accumulated pages (Suc n)))"
proof -
  have "get_offer_ids_loop srv n (cursor srv n) (accumulated pages n)
        = Some (Inr (accumulated pages n @ items (pages n)))"
  proof (rule loop_stop)
    show "reply srv n = Inr (pages n)" using r by simp
    from n show "total (pages n) = int (length (accumulated pages n @ items (pages n)))"
      by (simp add: reaches_total_def accumulated_Suc)
  qed
  with loop_run_to[OF r before] show ?thesis by (simp add: accumulated_Suc)
qed

lemma loop_never_returns:
  assumes r: "\<forall>n. reply srv n = Inr (pages n)" and never: "\<forall>n. \<not> reaches_total pages n"
  shows "get_offer_ids_loop srv k (cursor srv k) (accumulated pages k) = None"
proof (rule ccontr)
  assume "get_offer_ids_loop srv k (cursor srv k) (accumulated pages k) \<noteq> None"
  then obtain y where y: "get_offer_ids_loop srv k (cursor srv k) (accumulated pages k) = Some y"
    by auto
  have "srv = srv \<longrightarrow> cursor srv k = cursor srv k
        \<longrightarrow> accumulated pages k = accumulated pages k \<longrightarrow> False"
  proof (rule get_offer_ids_loop.raw_induct
      [where P = "\<lambda>s k lid pl y. s = srv \<longrightarrow> lid = cursor srv k
                      \<longrightarrow> pl = accumulated pages k \<longrightarrow> False", OF _ y], intro impI)
    fix f :: "server \<Rightarrow> nat \<Rightarrow> string \<Rightarrow> offer list \<Rightarrow> (error + offer list) option"
    fix s k lid pl y
    assume IH: "\<And>a b c d y. f a b c d = Some y \<Longrightarrow>
                 a = srv \<longrightarrow> c = cursor srv b \<longrightarrow> d = accumulated pages b \<longrightarrow> False"
      and eq: "(case s k lid of
                  Inl e \<Rightarrow> Some (Inl e)
                | Inr some_prod \<Rightarrow>
                    let product_list' = pl @ items some_prod
                    in if total some_prod = int (length product_list') then Some (Inr product_list')
                       else f s (Suc k) (last_id some_prod) product_list') = Some y"
      and s: "s = srv" and lid: "lid = cursor srv k" and pl: "pl = accumulated pages k"
    have rk: "srv k (cursor srv k) = Inr (pages k)" using r by (simp add: reply_def)
    have ne: "total (pages k) \<noteq> int (length (accumulated pages k @ items (pages k)))"
      using never by (simp add: reaches_total_def accumulated_Suc)
    have c: "cursor srv (Suc k) = last_id (pages k)" using rk by simp
    from eq ne have "f srv (Suc k) (cursor srv (Suc k)) (accumulated pages (Suc k)) = Some y"
      unfolding s lid pl c by (simp add: rk Let_def accumulated_Suc)
    from IH[OF this] show False by simp
  qed
  then show False by simp
qed

text \<open>
  Claim C10. Against a server whose replies are the pages \<open>pages 0\<close>, \<open>pages 1\<close>, ...,
  \<open>get_offer_ids\<close> returns exactly when after some page the number of items collected
  equals the total that page reports; it then returns the identifiers of all items
  collected up to the first such page. When that never happens the loop never ends.
\<close>

theorem get_offer_ids_returns_iff_total_reached:
  assumes "\<forall>n. reply srv n = Inr (pages n)"
  shows "((\<exists>ids. get_offer_ids srv = Some (Inr ids)) \<longleftrightarrow> (\<exists>n. reaches_total pages n))
       \<and> ((\<exists>n. reaches_total pages n) \<longrightarrow>
            get_offer_ids srv
            = Some (Inr (map offer_id (accumulated pages (Suc (LEAST n. reaches_total pages n))))))
       \<and> ((\<forall>n. \<not> reaches_total pages n) \<longrightarrow> get_offer_ids srv = None)"
proof -
  have some: "get_offer_ids srv
            = Some (Inr (map offer_id (accumulated pages (Suc (LEAST n. reaches_total pages n)))))"
    if ex: "\<exists>n. reaches_total pages n"
  proof -
    let ?m = "LEAST n. reaches_total pages n"
    from ex have at: "reaches_total pages ?m" by (rule LeastI_ex)
    have before: "\<forall>j<?m. \<not> reaches_total pages j" using not_less_Least by blast
    from loop_returns_at[OF assms at before] show ?thesis
      by (simp add: get_offer_ids_def)
  qed
  have none: "get_offer_ids srv = None" if never: "\<forall>n. \<not> reaches_total pages n"
    using loop_never_returns[OF assms never, of 0]
    by (simp add: get_offer_ids_def accumulated_def)
  from some none show ?thesis by (metis option.distinct(1))
qed

theorem get_offer_ids_returns_iff_total_reached_witness:
  "get_offer_ids (\<lambda>k lid. Inr (if k = 0
       then \<lparr>items = [\<lparr>offer_id = ''a''\<rparr>, \<lparr>offer_id = ''b''\<rparr>], total = 3, last_id = ''b''\<rparr>
       else \<lparr>items = [\<lparr>offer_id = ''c''\<rparr>], total = 3, last_id = ''c''\<rparr>))
     = Some (Inr [''a'', ''b'', ''c''])
   \<and> get_offer_ids (\<lambda>k lid. Inr \<lparr>items = [\<lparr>offer_id = ''a''\<rparr>], total = 0, last_id = ''a''\<rparr>)
     = None"
proof
  let ?pages = "\<lambda>k::nat. if k = 0
       then \<lparr>items = [\<lparr>offer_id = ''a''\<rparr>, \<lparr>offer_id = ''b''\<rparr>], total = 3, last_id = ''b''\<rparr>
       else \<lparr>items = [\<lparr>offer_id = ''c''\<rparr>], total = 3, last_id = ''c''\<rparr>"
  let ?srv = "\<lambda>(k::nat) (lid::string). (Inr (?pages k) :: error + page)"
  have r: "\<forall>n. reply ?srv n = Inr (?pages n)" by (simp add: reply_def)
  have a0: "accumulated ?pages (Suc 0) = [\<lparr>offer_id = ''a''\<rparr>, \<lparr>offer_id = ''b''\<rparr>]"
    by (simp add: accumulated_def)
  have a1: "accumulated ?pages (Suc (Suc 0))
            = [\<lparr>offer_id = ''a''\<rparr>, \<lparr>offer_id = ''b''\<rparr>, \<lparr>offer_id = ''c''\<rparr>]"
    by (simp add: accumulated_def)
  have n0: "\<not> reaches_total ?pages 0" unfolding reaches_total_def a0 by simp
  have y1: "reaches_total ?pages (Suc 0)" unfolding reaches_total_def a1 by simp
  have l: "(LEAST n. reaches_total ?pages n) = Suc 0"
  proof (rule Least_equality)
    show "reaches_total ?pages (Suc 0)" by (rule y1)
    fix y assume "reaches_total ?pages y"
    with n0 have "y \<noteq> 0" by (cases y) (simp_all del: One_nat_def)
    then show "Suc 0 \<le> y" by simp
  qed
  from get_offer_ids_returns_iff_total_reached[OF r] y1
  have "get_offer_ids ?srv = Some (Inr (map offer_id (accumulated ?pages (Suc (Suc 0)))))"
    unfolding l by blast
  then show "get_offer_ids ?srv = Some (Inr [''a'', ''b'', ''c''])"
    unfolding a1 by simp
next
  let ?pages = "\<lambda>k::nat. \<lparr>items = [\<lparr>offer_id = ''a''\<rparr>], total = 0, last_id = ''a''\<rparr>"
  let ?srv = "\<lambda>(k::nat) (lid::string). (Inr (?pages k) :: error + page)"
  have r: "\<forall>n. reply ?srv n = Inr (?pages n)" by (simp add: reply_def)
  have never: "\<forall>n. \<not> reaches_total ?pages n"
    by (simp add: reaches_total_def accumulated_Suc)
  from get_offer_ids_returns_iff_total_reached[OF r] never
  show "get_offer_ids ?srv = None" by blast
qed


section \<open>Properties of main and upload_prices\<close>

lemma send_all_ok:
  "(\<forall>k c. upd k c = None) \<Longrightarrow> send_all upd sent cs = (sent @ cs, None)"
  by (induction cs arbitrary: sent) auto

lemma divide_pos:
  "0 < n \<Longrightarrow> divide s n = Inr (map (\<lambda>i. slice s i (i + n)) (py_range 0 (int (length s)) n))"
  by (simp add: divide_def)

lemma main_run:
  assumes g: "get_offer_ids srv = Some (Inr ids)"
    and c: "create_stocks interp ws ids = (ids', Inr st)"
    and u: "\<forall>k c. upd k c = None"
  shows "\<exists>sb pb. divide st 100 = Inr sb \<and> divide (create_prices ws ids') 900 = Inr pb
           \<and> main interp srv (Inr ws) upd = Some (map Update_stocks sb @ map Update_price pb, Completed)"
proof -
  obtain sb where sb: "divide st 100 = Inr sb" by (simp add: divide_pos)
  obtain pb where pb: "divide (create_prices ws ids') 900 = Inr pb" by (simp add: divide_pos)
  have "main interp srv (Inr ws) upd = Some (map Update_stocks sb @ map Update_price pb, Completed)"
    by (simp add: main_def g c sb pb send_all_ok[OF u])
  with sb pb show ?thesis by blast
qed

lemma create_stocks_distinct_ids:
  assumes "distinct ids" "create_stocks interp ws ids = (ids', Inr st)"
  shows "ids' = filter (\<lambda>i. i \<notin> Kod ` set ws) ids"
proof -
  from assms(2) obtain st0 where "stocks_loop interp ws ids [] = (ids', Inr st0)"
    by (auto simp: create_stocks_def split: prod.splits sum.splits)
  from stocks_loop_distinct_ids[OF assms(1) this] show ?thesis .
qed

lemma create_stocks_all_matched_length:
  assumes "distinct (map Kod ws)" "Kod ` set ws \<subseteq> set ids" "create_stocks interp ws ids = (ids', Inr st)"
  shows "length st = length ws + length ids'"
proof -
  from assms(3) obtain st0 where l: "stocks_loop interp ws ids [] = (ids', Inr st0)"
    and st: "st = st0 @ map (\<lambda>i. \<lparr>offer_id = i, stock = 0\<rparr>) ids'"
    by (auto simp: create_stocks_def split: prod.splits sum.splits)
  from stocks_loop_all_matched[OF assms(1,2) l] st show ?thesis by simp
qed

lemma divide_1500_by_100:
  assumes "length s = 1500"
  shows "\<exists>sb. divide s 100 = Inr sb \<and> map length sb = replicate 15 100"
proof -
  have r: "py_range 0 1500 100
       = [0, 100, 200, 300, 400, 500, 600, 700, 800, 900, 1000, 1100, 1200, 1300, 1400]"
    by (simp add: py_range.simps)
  have "replicate 15 (100::nat) = [100,100,100,100,100,100,100,100,100,100,100,100,100,100,100]"
    by (simp add: numeral_eq_Suc)
  then show ?thesis
    using assms by (simp add: divide_pos r slice_def)
qed

lemma divide_1500_by_1000:
  assumes "length s = 1500"
  shows "\<exists>pb. divide s 1000 = Inr pb \<and> map length pb = [1000, 500]"
proof -
  have r: "py_range 0 1500 1000 = [0, 1000]"
    by (simp add: py_range.simps)
  show ?thesis
    using assms by (simp add: divide_pos r slice_def)
qed

lemma divide_1500_by_900:
  assumes "length s = 1500"
  shows "\<exists>pb. divide s 900 = Inr pb \<and> map length pb = [900, 600]"
proof -
  have r: "py_range 0 1500 900 = [0, 900]"
    by (simp add: py_range.simps)
  show ?thesis
    using assms by (simp add: divide_pos r slice_def)
qed

lemma scenario_code_inj: "inj scenario_code"
proof (rule injI)
  fix i j assume "scenario_code i = scenario_code j"
  then have "length (scenario_code i) = length (scenario_code j)" by simp
  then show "i = j" by (simp add: scenario_code_def)
qed

lemma scenario_ids: "get_offer_ids scenario_server = Some (Inr (map scenario_code [0..<1500]))"
proof -
  have split: "[0..<1500] = [0..<1000] @ [1000..<1500]"
    using upt_add_eq_append[of 0 1000 500] by (simp del: upt_rec_numeral)
  have "get_offer_ids_loop scenario_server 0 [] []
        = get_offer_ids_loop scenario_server (Suc 0) (scenario_code 999)
            (map (\<lambda>i. \<lparr>offer_id = scenario_code i\<rparr>) [0..<1000])"
    by (subst get_offer_ids_loop.simps) (simp add: scenario_server_def Let_def del: upt_rec_numeral)
  also have "\<dots> = Some (Inr (map (\<lambda>i. \<lparr>offer_id = scenario_code i\<rparr>) [0..<1000]
                              @ map (\<lambda>i. \<lparr>offer_id = scenario_code i\<rparr>) [1000..<1500]))"
    by (subst get_offer_ids_loop.simps) (simp add: scenario_server_def Let_def del: upt_rec_numeral)
  finally show ?thesis
    unfolding get_offer_ids_def split by (simp add: comp_def del: upt_rec_numeral)
qed


text \<open>
  Claim C1. An inventory of 1500 rows with distinct identifiers, a catalog of exactly
  these identifiers (each listed once), quantities that parse and requests that all
  succeed. \<open>main\<close> sends 15 stock updates of 100 records each and then no price update
  at all: \<open>create_stocks\<close> has emptied the list that \<open>create_prices\<close> reads. Given the
  full list, \<open>create_prices\<close> yields 1500 records, which \<open>divide\<close> by 900 splits into
  900 and 600; \<open>upload_prices\<close>, which fetches the list itself, sends two price
  updates of 1000 and 500 records.
\<close>

theorem main_1500_rows_no_price_update:
  assumes g: "get_offer_ids srv = Some (Inr ids)"
    and len: "length ws = 1500"
    and dw: "distinct (map Kod ws)"
    and cat: "set ids = Kod ` set ws"
    and di: "distinct ids"
    and q: "\<forall>w \<in> set ws. \<exists>q. quantity_policy interp (Kolichestvo w) = Inr q"
    and u: "\<forall>k c. upd k c = None"
  shows "(\<exists>sb. main interp srv (Inr ws) upd = Some (map Update_stocks sb, Completed)
              \<and> map length sb = replicate 15 100)
       \<and> (\<exists>pb. divide (create_prices ws ids) 900 = Inr pb \<and> map length pb = [900, 600])
       \<and> (\<exists>pb prices. upload_prices ws srv upd = Some (map Update_price pb, Inr prices)
              \<and> map length pb = [1000, 500])"
proof (intro conjI)
  from create_stocks_returns[OF q] obtain ids' st
    where c: "create_stocks interp ws ids = (ids', Inr st)" by blast
  have "ids' = filter (\<lambda>i. i \<notin> Kod ` set ws) ids"
    by (rule create_stocks_distinct_ids[OF di c])
  then have e: "ids' = []" using cat by simp
  have "length st = length ws + length ids'"
    by (rule create_stocks_all_matched_length[OF dw _ c]) (simp add: cat)
  then have l: "length st = 1500" using len e by simp
  from main_run[OF g c u] obtain sb pb where sb: "divide st 100 = Inr sb"
    and pb: "divide (create_prices ws ids') 900 = Inr pb"
    and m: "main interp srv (Inr ws) upd = Some (map Update_stocks sb @ map Update_price pb, Completed)"
    by blast
  have "create_prices ws ids' = []" unfolding e by (simp add: create_prices_filter)
  with pb have "pb = []" by (simp add: divide_def py_range_stop)
  moreover from divide_1500_by_100[OF l] sb have "map length sb = replicate 15 100" by auto
  ultimately show "\<exists>sb. main interp srv (Inr ws) upd = Some (map Update_stocks sb, Completed)
              \<and> map length sb = replicate 15 100"
    using m by auto
next
  have "filter (\<lambda>w. Kod w \<in> set ids) ws = ws" using cat by (simp add: filter_id_conv)
  then have pl: "length (create_prices ws ids) = 1500"
    using len by (simp add: create_prices_filter)
  show "\<exists>pb. divide (create_prices ws ids) 900 = Inr pb \<and> map length pb = [900, 600]"
    by (rule divide_1500_by_900[OF pl])
  from divide_1500_by_1000[OF pl] obtain pb where
    pb: "divide (create_prices ws ids) 1000 = Inr pb" "map length pb = [1000, 500]" by auto
  have "upload_prices ws srv upd = Some (map Update_price pb, Inr (create_prices ws ids))"
    by (simp add: upload_prices_def g pb(1) send_all_ok[OF u])
  with pb(2) show "\<exists>pb prices. upload_prices ws srv upd = Some (map Update_price pb, Inr prices)
              \<and> map length pb = [1000, 500]"
    by auto
qed

theorem main_1500_rows_no_price_update_witness:
  "(\<exists>sb. main plain_interpreter scenario_server (Inr scenario_inventory) (\<lambda>k c. None)
            = Some (map Update_stocks sb, Completed)
         \<and> map length sb = replicate 15 100)
   \<and> (\<exists>pb prices. upload_prices scenario_inventory scenario_server (\<lambda>k c. None)
            = Some (map Update_price pb, Inr prices)
         \<and> map length pb = [1000, 500])"
proof -
  have k: "map Kod scenario_inventory = map scenario_code [0..<1500]"
    by (simp add: scenario_inventory_def comp_def del: upt_rec_numeral)
  have len: "length scenario_inventory = 1500"
    by (simp add: scenario_inventory_def del: upt_rec_numeral)
  have "inj_on scenario_code (set [0..<1500])"
    by (rule inj_on_subset[OF scenario_code_inj]) simp
  then have di: "distinct (map scenario_code [0..<1500])"
    by (simp add: distinct_map del: upt_rec_numeral)
  have dw: "distinct (map Kod scenario_inventory)" unfolding k by (rule di)
  have cat: "set (map scenario_code [0..<1500]) = Kod ` set scenario_inventory"
    unfolding k[symmetric] by simp
  have q5: "quantity_policy plain_interpreter ''5'' = Inr 5"
    by (simp add: quantity_policy_def py_int_def int_ascii_def str_strip_def is_space_def is_digit_def
        digit_value_def)
  have q: "\<forall>w \<in> set scenario_inventory.
             \<exists>q. quantity_policy plain_interpreter (Kolichestvo w) = Inr q"
    using q5 by (auto simp: scenario_inventory_def simp del: upt_rec_numeral)
  have u: "\<forall>k c. (\<lambda>(k::nat) (c::call). (None :: error option)) k c = None" by simp
  from main_1500_rows_no_price_update [OF scenario_ids len dw cat di q u]
  show ?thesis by blast
qed

text \<open>
  Claim C2, as stated, fails when \<open>offer_ids\<close> lists an identifier twice: \<open>remove\<close>
  takes out the first occurrence only, so a matched identifier stays in the list (and
  gets a zero record besides its inventory record).
\<close>

theorem create_stocks_keeps_duplicate:
  "create_stocks plain_interpreter
     [\<lparr>Kod = ''A'', Kolichestvo = ''5'', Tsena = ''100.00''\<rparr>] [''A'', ''A'']
   = ([''A''], Inr [\<lparr>offer_id = ''A'', stock = 5\<rparr>, \<lparr>offer_id = ''A'', stock = 0\<rparr>])"
  by (simp add: eval_stocks)

text \<open>
  Claim C2, amended. \<open>create_stocks\<close> changes the caller's \<open>offer_ids\<close>: when it returns,
  the list is the original one from which, for each inventory row in turn, the first
  remaining occurrence of the row's identifier has been removed (nothing is removed
  for a row whose identifier is not in the list any more). So what is left is a
  subsequence of the original that still holds every identifier no inventory row
  carries, and an identifier listed \<open>n\<close> times and carried by \<open>m\<close> rows is left
  \<open>n - m\<close> times (not at all when \<open>m\<close> exceeds \<open>n\<close>). When the list has no duplicates,
  what is left is exactly the identifiers that no inventory row carries, in their
  order, and \<open>create_prices\<close> finds no row for it. With the identifiers A, B, A and one
  row for A, the list left is B, A. \<open>create_prices\<close> itself only reads the list. In
  \<open>main\<close> the price batches are those of \<open>create_prices\<close> on the list \<open>create_stocks\<close>
  left, not on the catalog.
\<close>

theorem create_stocks_depletes_offer_ids:
  "(create_stocks interp ws ids = (ids', Inr st) \<longrightarrow>
      ids' = fold remove1 (map Kod ws) ids
      \<and> subseq ids' ids
      \<and> (\<forall>i \<in> set ids. i \<notin> Kod ` set ws \<longrightarrow> i \<in> set ids')
      \<and> (\<forall>i. count_list ids' i = count_list ids i - count_list (map Kod ws) i))
   \<and> (distinct ids \<and> create_stocks interp ws ids = (ids', Inr st) \<longrightarrow>
      ids' = filter (\<lambda>i. i \<notin> Kod ` set ws) ids \<and> create_prices ws ids' = [])
   \<and> create_stocks interp
        [\<lparr>Kod = ''A'', Kolichestvo = ''5'', Tsena = ''100.00''\<rparr>] [''A'', ''B'', ''A'']
      = ([''B'', ''A''], Inr [\<lparr>offer_id = ''A'', stock = 5\<rparr>, \<lparr>offer_id = ''B'', stock = 0\<rparr>,
                              \<lparr>offer_id = ''A'', stock = 0\<rparr>])
   \<and> (get_offer_ids srv = Some (Inr ids) \<and> create_stocks interp ws ids = (ids', Inr st)
        \<and> (\<forall>k c. upd k c = None) \<longrightarrow>
      (\<exists>sb pb. divide st 100 = Inr sb \<and> divide (create_prices ws ids') 900 = Inr pb
         \<and> main interp srv (Inr ws) upd
           = Some (map Update_stocks sb @ map Update_price pb, Completed)))"
proof -
  have one: "ids' = fold remove1 (map Kod ws) ids
      \<and> subseq ids' ids
      \<and> (\<forall>i \<in> set ids. i \<notin> Kod ` set ws \<longrightarrow> i \<in> set ids')
      \<and> (\<forall>i. count_list ids' i = count_list ids i - count_list (map Kod ws) i)"
    if c: "create_stocks interp ws ids = (ids', Inr st)"
  proof -
    from create_stocks_exact[OF c] have e: "ids' = fold remove1 (map Kod ws) ids" by blast
    have s: "subseq ids' ids" unfolding e by (rule fold_remove1_subseq)
    have k: "\<forall>i \<in> set ids. i \<notin> Kod ` set ws \<longrightarrow> i \<in> set ids'"
      unfolding e by (simp add: fold_remove1_keeps)
    have n: "\<forall>i. count_list ids' i = count_list ids i - count_list (map Kod ws) i"
      unfolding e by (simp add: fold_remove1_count)
    from e s k n show ?thesis by (intro conjI)
  qed
  have two: "ids' = filter (\<lambda>i. i \<notin> Kod ` set ws) ids \<and> create_prices ws ids' = []"
    if a: "distinct ids \<and> create_stocks interp ws ids = (ids', Inr st)"
  proof -
    from a have f: "ids' = filter (\<lambda>i. i \<notin> Kod ` set ws) ids"
      using create_stocks_distinct_ids by blast
    have "filter (\<lambda>w. Kod w \<in> set ids') ws = []"
      unfolding f by (auto simp: filter_empty_conv)
    then have "create_prices ws ids' = []" by (simp add: create_prices_filter)
    with f show ?thesis by (intro conjI)
  qed
  have three: "create_stocks interp
        [\<lparr>Kod = ''A'', Kolichestvo = ''5'', Tsena = ''100.00''\<rparr>] [''A'', ''B'', ''A'']
      = ([''B'', ''A''], Inr [\<lparr>offer_id = ''A'', stock = 5\<rparr>, \<lparr>offer_id = ''B'', stock = 0\<rparr>,
                              \<lparr>offer_id = ''A'', stock = 0\<rparr>])"
    by (simp add: eval_stocks)
  have four: "\<exists>sb pb. divide st 100 = Inr sb \<and> divide (create_prices ws ids') 900 = Inr pb
         \<and> main interp srv (Inr ws) upd
           = Some (map Update_stocks sb @ map Update_price pb, Completed)"
    if "get_offer_ids srv = Some (Inr ids) \<and> create_stocks interp ws ids = (ids', Inr st)
        \<and> (\<forall>k c. upd k c = None)"
    using that main_run by blast
  show ?thesis
    apply (intro conjI)
       apply (rule impI, erule one)
      apply (rule impI, erule two)
     apply (rule three)
    apply (rule impI, erule four)
    done
qed

theorem create_stocks_depletes_offer_ids_witness:
  "create_stocks plain_interpreter [\<lparr>Kod = ''A'', Kolichestvo = ''3'', Tsena = ''100.00''\<rparr>,
                  \<lparr>Kod = ''B'', Kolichestvo = ''>10'', Tsena = ''250.00''\<rparr>]
                 [''B'', ''C'', ''A'', ''D'']
   = ([''C'', ''D''],
      Inr [\<lparr>offer_id = ''A'', stock = 3\<rparr>, \<lparr>offer_id = ''B'', stock = 100\<rparr>,
           \<lparr>offer_id = ''C'', stock = 0\<rparr>, \<lparr>offer_id = ''D'', stock = 0\<rparr>])
   \<and> fold remove1 [''A'', ''B''] [''B'', ''C'', ''A'', ''D''] = [''C'', ''D'']
   \<and> create_prices [\<lparr>Kod = ''A'', Kolichestvo = ''3'', Tsena = ''100.00''\<rparr>,
                    \<lparr>Kod = ''B'', Kolichestvo = ''>10'', Tsena = ''250.00''\<rparr>] [''C'', ''D''] = []
   \<and> main plain_interpreter
          (\<lambda>k lid. Inr \<lparr>items = [\<lparr>offer_id = ''B''\<rparr>, \<lparr>offer_id = ''C''\<rparr>,
                                    \<lparr>offer_id = ''A''\<rparr>, \<lparr>offer_id = ''D''\<rparr>],
                           total = 4, last_id = ''D''\<rparr>)
          (Inr [\<lparr>Kod = ''A'', Kolichestvo = ''3'', Tsena = ''100.00''\<rparr>,
                \<lparr>Kod = ''B'', Kolichestvo = ''>10'', Tsena = ''250.00''\<rparr>])
          (\<lambda>k c. None)
     = Some ([Update_stocks [\<lparr>offer_id = ''A'', stock = 3\<rparr>, \<lparr>offer_id = ''B'', stock = 100\<rparr>,
                             \<lparr>offer_id = ''C'', stock = 0\<rparr>, \<lparr>offer_id = ''D'', stock = 0\<rparr>]],
             Completed)"
proof -
  let ?ws = "[\<lparr>Kod = ''A'', Kolichestvo = ''3'', Tsena = ''100.00''\<rparr>,
              \<lparr>Kod = ''B'', Kolichestvo = ''>10'', Tsena = ''250.00''\<rparr>]"
  let ?ids = "[''B'', ''C'', ''A'', ''D'']"
  let ?st = "[\<lparr>offer_id = ''A'', stock = 3\<rparr>, \<lparr>offer_id = ''B'', stock = 100\<rparr>,
              \<lparr>offer_id = ''C'', stock = 0\<rparr>, \<lparr>offer_id = ''D'', stock = 0\<rparr>]"
  let ?srv = "\<lambda>(k::nat) (lid::string). (Inr \<lparr>items = [\<lparr>offer_id = ''B''\<rparr>, \<lparr>offer_id = ''C''\<rparr>,
                                    \<lparr>offer_id = ''A''\<rparr>, \<lparr>offer_id = ''D''\<rparr>],
                           total = 4, last_id = ''D''\<rparr> :: error + page)"
  let ?upd = "\<lambda>(k::nat) (c::call). (None :: error option)"
  have c: "create_stocks plain_interpreter ?ws ?ids = ([''C'', ''D''], Inr ?st)"
    by (simp add: eval_stocks)
  have d: "distinct ?ids" by simp
  have g: "get_offer_ids ?srv = Some (Inr ?ids)"
    unfolding get_offer_ids_def by (subst get_offer_ids_loop.simps) simp
  have u: "\<forall>k c. ?upd k c = None" by simp
  note t = create_stocks_depletes_offer_ids
             [of plain_interpreter ?ws ?ids "[''C'', ''D'']" ?st ?srv ?upd]
  from t c have f: "[''C'', ''D''] = fold remove1 (map Kod ?ws) ?ids" by blast
  from t c d have p: "create_prices ?ws [''C'', ''D''] = []" by blast
  from t g c u obtain sb pb where sb: "divide ?st 100 = Inr sb"
    and pb: "divide (create_prices ?ws [''C'', ''D'']) 900 = Inr pb"
    and m: "main plain_interpreter ?srv (Inr ?ws) ?upd
            = Some (map Update_stocks sb @ map Update_price pb, Completed)"
    by blast
  from sb have "sb = [?st]" by (simp add: divide_def py_range.simps slice_def)
  moreover from pb have "pb = []" unfolding p by (simp add: divide_def py_range.simps)
  ultimately show ?thesis using c p m by simp
qed

end
